theory Spec2Isabelle
  imports Complex_Main "HOL-Library.Multiset"
begin

section \<open>Pull-Time: a shallow embedding of \<^verbatim>\<open>main.go\<close>\<close>

text \<open>
  The program times \<^verbatim>\<open>docker pull\<close> in five sub-commands. This theory embeds the
  functions of \<^verbatim>\<open>src/main.go\<close> that carry its logic: \<^verbatim>\<open>parseRegistry\<close>,
  \<^verbatim>\<open>parseDockerOutput\<close>, \<^verbatim>\<open>printSummary\<close>, the body of the \<^verbatim>\<open>warmup\<close> loop and
  the goroutines of \<^verbatim>\<open>benchmark\<close>. Go strings are byte sequences, here
  \<^typ>\<open>string\<close>; \<^verbatim>\<open>int\<close> and \<^verbatim>\<open>int64\<close> are \<^typ>\<open>int\<close>, with the wrap-around
  written out where an addition can overflow. What the program asks of the outside
  world (the exit of a command, the clock, the scheduler) is a parameter of the model.
\<close>

subsection \<open>The result record\<close>

text \<open>
  \<^verbatim>\<open>type Result struct\<close> (lines 250 to 261). The JSON tags \<^verbatim>\<open>omitempty\<close> make an
  empty \<^verbatim>\<open>Error\<close> and a zero \<^verbatim>\<open>Bytes\<close> or \<^verbatim>\<open>Layers\<close> absent from the output, so
  "absent" is the zero value of the field.
\<close>

record Result =
  Image :: string
  Registry :: string
  Success :: bool
  PullTimeMs :: int
  StartTime :: string
  EndTime :: string
  Error :: string
  Bytes :: int
  Layers :: int
  CmdOutput :: string

subsection \<open>parseRegistry\<close>

text \<open>
  \<^verbatim>\<open>indexOf\<close> ranges over the runes of \<^verbatim>\<open>s\<close> and returns the byte offset of the first
  one equal to \<^verbatim>\<open>c\<close>, or \<^verbatim>\<open>-1\<close>. Its three callers pass an ASCII rune; a byte below
  128 never lies inside the encoding of another rune, so the search over bytes finds the
  same offset.
\<close>

fun indexOf_from :: "string \<Rightarrow> char \<Rightarrow> int \<Rightarrow> int" where
  "indexOf_from [] c i = - 1"
| "indexOf_from (ch # s) c i = (if ch = c then i else indexOf_from s c (i + 1))"

definition indexOf :: "string \<Rightarrow> char \<Rightarrow> int" where
  "indexOf s c = indexOf_from s c 0"

definition isOfficialDockerHub :: "string \<Rightarrow> bool" where
  "isOfficialDockerHub img =
     (indexOf img (CHR ''.'') = - 1 \<and> indexOf img (CHR '':'') = - 1)"

definition parseRegistry :: "string \<Rightarrow> string" where
  "parseRegistry img =
     (let idx = indexOf img (CHR ''/'') in
      if idx > 0 \<and> \<not> isOfficialDockerHub img then take (nat idx) img
      else ''docker.io'')"

subsection \<open>printSummary\<close>

text \<open>
  \<^verbatim>\<open>sum\<close> is an \<^verbatim>\<open>int64\<close>: \<^verbatim>\<open>sum += r.PullTimeMs\<close> wraps around.
\<close>

definition wrap64 :: "int \<Rightarrow> int" where
  "wrap64 x = (x + 2 ^ 63) mod 2 ^ 64 - 2 ^ 63"

text \<open>
  The average is \<^verbatim>\<open>float64(sum)/float64(success)\<close>. Go's float division does not
  panic: zero by zero is NaN and a non-zero value by zero is an infinity. A finite
  quotient is kept exact here, where Go rounds it to the nearest \<^verbatim>\<open>float64\<close> (and
  \<^verbatim>\<open>%.2f\<close> to two decimals).
\<close>

datatype float64 = NaN | PosInf | NegInf | Finite rat

definition float64_div :: "int \<Rightarrow> int \<Rightarrow> float64" where
  "float64_div x y =
     (if y = 0 then (if x = 0 then NaN else if x > 0 then PosInf else NegInf)
      else Finite (of_int x / of_int y))"

text \<open>
  The loop of lines 315 to 326, with the index \<^verbatim>\<open>i\<close> of \<^verbatim>\<open>range results\<close> and the
  locals \<^verbatim>\<open>success\<close>, \<^verbatim>\<open>min\<close>, \<^verbatim>\<open>max\<close>, \<^verbatim>\<open>sum\<close> (all zero at the start; \<open>mn\<close>, \<open>mx\<close> and
  \<open>sm\<close> here, the source's names being constants of HOL).
\<close>

fun summary_loop :: "Result list \<Rightarrow> int \<Rightarrow> int \<times> int \<times> int \<times> int \<Rightarrow> int \<times> int \<times> int \<times> int" where
  "summary_loop [] i acc = acc"
| "summary_loop (r # rs) i (success, mn, mx, sm) =
     summary_loop rs (i + 1)
       (if Success r then
          (success + 1,
           (if i = 0 \<or> PullTimeMs r < mn then PullTimeMs r else mn),
           (if PullTimeMs r > mx then PullTimeMs r else mx),
           wrap64 (sm + PullTimeMs r))
        else (success, mn, mx, sm))"

text \<open>What the summary line prints: \<^verbatim>\<open>success/total\<close>, min, max and avg.\<close>

record summary =
  succeeded :: int
  total :: int
  min_ms :: int
  max_ms :: int
  avg_ms :: float64

definition printSummary :: "Result list \<Rightarrow> summary" where
  "printSummary results =
     (case summary_loop results 0 (0, 0, 0, 0) of
        (success, mn, mx, sm) \<Rightarrow>
          \<lparr>succeeded = success, total = int (length results), min_ms = mn, max_ms = mx,
           avg_ms = float64_div sm success\<rparr>)"

text \<open>A result with only the two fields the summary reads filled in.\<close>

definition result_of :: "bool \<Rightarrow> int \<Rightarrow> Result" where
  "result_of ok ms =
     \<lparr>Image = ''img'', Registry = ''docker.io'', Success = ok, PullTimeMs = ms,
      StartTime = [], EndTime = [], Error = (if ok then [] else ''exit status 1''),
      Bytes = 0, Layers = 0, CmdOutput = []\<rparr>"

subsection \<open>fmt.Sscanf\<close>

text \<open>
  \<^verbatim>\<open>parseDockerOutput\<close> decides everything on the count that \<^verbatim>\<open>fmt.Sscanf\<close> returns.
  The scanner is Go's standard library, not a file of this repository; it is modelled
  here after \<^verbatim>\<open>doScanf\<close> and \<^verbatim>\<open>advance\<close> of \<^verbatim>\<open>fmt/scan.go\<close>, for operands of type
  \<^verbatim>\<open>*int64\<close>: literal bytes of the format must match the input, a run of blanks in the
  format matches one or more blanks of the input (or its end), and each verb consumes
  one operand. \<^verbatim>\<open>numProcessed\<close>, the count returned, goes up only after a verb has
  stored a value into an operand; every scanning error ends the scan and leaves the
  count as it is. The verb \<^verbatim>\<open>d\<close> is modelled in full. A format with a width, a newline,
  a byte above 127, or another integer verb that meets an operand is outside the model,
  and the scan says so in its status; the three formats of the program are inside
  (\<open>Sscanf_formats_modelled\<close> below).
\<close>

definition isSpace :: "char \<Rightarrow> bool" where
  "isSpace c = (let b = (of_char c :: nat) in (9 \<le> b \<and> b \<le> 13) \<or> b = 32)"

definition isDigit :: "char \<Rightarrow> bool" where
  "isDigit c = (let b = (of_char c :: nat) in 48 \<le> b \<and> b \<le> 57)"

text \<open>
  The input is read rune by rune. \<open>space_len\<close> is the number of bytes of the white-space
  rune at the head of the input, 0 when there is none: the ASCII blanks, and the UTF-8
  encodings of U+0085, U+00A0, U+1680, U+2000 to U+200A, U+2028, U+2029, U+202F, U+205F
  and U+3000, which \<^verbatim>\<open>isSpace\<close> of \<^verbatim>\<open>fmt\<close> lists.
\<close>

fun space_len :: "string \<Rightarrow> nat" where
  "space_len [] = 0"
| "space_len (c # cs) =
     (if isSpace c then 1
      else if c = CHR 0xC2 then
        (if take 1 cs = [CHR 0x85] \<or> take 1 cs = [CHR 0xA0] then 2 else 0)
      else if c = CHR 0xE1 then
        (if take 2 cs = [CHR 0x9A, CHR 0x80] then 3 else 0)
      else if c = CHR 0xE2 then
        (case cs of
           d # e # _ \<Rightarrow>
             (if d = CHR 0x80 \<and>
                 ((0x80 \<le> (of_char e :: nat) \<and> (of_char e :: nat) \<le> 0x8A)
                  \<or> e = CHR 0xA8 \<or> e = CHR 0xA9 \<or> e = CHR 0xAF) then 3
              else if d = CHR 0x81 \<and> e = CHR 0x9F then 3 else 0)
         | _ \<Rightarrow> 0)
      else if c = CHR 0xE3 then
        (if take 2 cs = [CHR 0x80, CHR 0x80] then 3 else 0)
      else 0)"

text \<open>Drop the blanks at the head of the input, up to a newline or another rune.\<close>

function skip_blanks :: "string \<Rightarrow> string" where
  "skip_blanks [] = []"
| "skip_blanks (c # cs) =
     (if c = CHR 0x0A \<or> space_len (c # cs) = 0 then c # cs
      else skip_blanks (drop (space_len (c # cs)) (c # cs)))"
  by pat_completeness auto
termination
  by (relation "measure length") auto

text \<open>
  \<^verbatim>\<open>SkipSpace\<close> of a scan by format (\<^verbatim>\<open>nlIsSpace\<close> is false): a newline is the error
  "unexpected newline", here \<open>None\<close>.
\<close>

definition SkipSpace :: "string \<Rightarrow> string option" where
  "SkipSpace inp =
     (case skip_blanks inp of
        [] \<Rightarrow> Some []
      | c # cs \<Rightarrow> if c = CHR 0x0A then None else Some (c # cs))"

definition digits_val :: "string \<Rightarrow> int" where
  "digits_val ds = foldl (\<lambda>a c. 10 * a + (int (of_char c) - 48)) 0 ds"

text \<open>
  \<^verbatim>\<open>scanInt\<close> for the verb \<^verbatim>\<open>d\<close> and 64 bits: blanks, an optional sign, at least one
  decimal digit, then \<^verbatim>\<open>strconv.ParseInt\<close>, which refuses a value outside
  \<^verbatim>\<open>int64\<close>. \<open>None\<close> is any of its errors; otherwise the value and the rest of the input.
\<close>

definition scanInt :: "string \<Rightarrow> (int \<times> string) option" where
  "scanInt inp0 =
     (case SkipSpace inp0 of
        None \<Rightarrow> None
      | Some [] \<Rightarrow> None
      | Some (c # cs) \<Rightarrow>
          (let rest = (if c = CHR ''+'' \<or> c = CHR ''-'' then cs else c # cs);
               tok = takeWhile isDigit rest;
               i = (if c = CHR ''-'' then - digits_val tok else digits_val tok)
           in if tok = [] then None
              else if - (2 ^ 63) \<le> i \<and> i < 2 ^ 63 then Some (i, dropWhile isDigit rest)
              else None))"

datatype scan_status = Ok | Failed | Unmodelled

text \<open>
  The outcome of a scan: the count \<^verbatim>\<open>n\<close> that \<^verbatim>\<open>Sscanf\<close> returns, the values stored
  through the operands in order, and whether the scan ended without error.
\<close>

datatype scanned = Scanned (items: nat) (stored: "int list") (status: scan_status)

function doScanf :: "string \<Rightarrow> string \<Rightarrow> nat \<Rightarrow> nat \<Rightarrow> int list \<Rightarrow> scanned" where
  "doScanf [] inp len_a numProcessed vs =
     Scanned numProcessed vs (if numProcessed < len_a then Failed else Ok)"
| "doScanf (f # fs) inp len_a numProcessed vs =
     (if (of_char f :: nat) \<ge> 128 then Scanned numProcessed vs Unmodelled
      else if isSpace f then
        (if CHR 0x0A \<in> set (takeWhile isSpace (f # fs)) then Scanned numProcessed vs Unmodelled
         else if inp = [] then doScanf (dropWhile isSpace fs) [] len_a numProcessed vs
         else if hd inp = CHR 0x0A \<or> space_len inp = 0 then Scanned numProcessed vs Failed
         else doScanf (dropWhile isSpace fs) (skip_blanks inp) len_a numProcessed vs)
      else if f = CHR ''%'' then
        (case fs of
           [] \<Rightarrow> Scanned numProcessed vs Failed
         | c # fs' \<Rightarrow>
             if c = CHR ''%'' then
               (if inp \<noteq> [] \<and> hd inp = CHR ''%'' then doScanf fs' (tl inp) len_a numProcessed vs
                else Scanned numProcessed vs Failed)
             else if isDigit c \<or> (of_char c :: nat) \<ge> 128 then Scanned numProcessed vs Unmodelled
             else
               (case (if c = CHR ''c'' then Some inp else SkipSpace inp) of
                  None \<Rightarrow> Scanned numProcessed vs Failed
                | Some inp1 \<Rightarrow>
                    if numProcessed \<ge> len_a then Scanned numProcessed vs Failed
                    else if c = CHR ''d'' then
                      (case scanInt inp1 of
                         None \<Rightarrow> Scanned numProcessed vs Failed
                       | Some (v, inp2) \<Rightarrow> doScanf fs' inp2 len_a (numProcessed + 1) (vs @ [v]))
                    else if c \<in> set ''boUxXvc'' then Scanned numProcessed vs Unmodelled
                    else Scanned numProcessed vs Failed))
      else if inp \<noteq> [] \<and> hd inp = f then doScanf fs (tl inp) len_a numProcessed vs
      else Scanned numProcessed vs Failed)"
  by pat_completeness auto
termination
  by (relation "measure (\<lambda>(fmt, inp, len_a, np, vs). length fmt)")
     (auto simp: length_dropWhile_le less_Suc_eq_le)

text \<open>\<^verbatim>\<open>fmt.Sscanf(str, format, a...)\<close> with \<open>len_a\<close> operands of type \<^verbatim>\<open>*int64\<close>.\<close>

definition Sscanf :: "string \<Rightarrow> string \<Rightarrow> nat \<Rightarrow> scanned" where
  "Sscanf str format len_a = doScanf format str len_a 0 []"

subsection \<open>parseDockerOutput\<close>

text \<open>\<^verbatim>\<open>strings.Split(s, "\n")\<close>: the pieces between the newlines, at least one.\<close>

fun split_from :: "string \<Rightarrow> string \<Rightarrow> string list" where
  "split_from cur [] = [cur]"
| "split_from cur (c # s) =
     (if c = CHR 0x0A then cur # split_from [] s else split_from (cur @ [c]) s)"

definition splitLines :: "string \<Rightarrow> string list" where
  "splitLines s = split_from [] s"

text \<open>
  The loop of lines 291 to 301 over the locals \<^verbatim>\<open>layers\<close> and \<^verbatim>\<open>bytes\<close> and the result.
  The first and the third \<^verbatim>\<open>Sscanf\<close> are called with no operand, the second with
  \<^verbatim>\<open>&bytes\<close>; a scan that stores nothing leaves \<^verbatim>\<open>bytes\<close> as it was.
\<close>

fun scan_lines :: "string list \<Rightarrow> int \<times> int \<times> Result \<Rightarrow> int \<times> int \<times> Result" where
  "scan_lines [] st = st"
| "scan_lines (line # lines) (layers, bytes, res) =
     (if items (Sscanf line ''Downloaded newer image for %*s'' 0) > 0
      then scan_lines lines (layers, bytes, res)
      else
        (let sc = Sscanf line ''%dB'' 1;
             bytes' = (case stored sc of [] \<Rightarrow> bytes | v # _ \<Rightarrow> v);
             res' = (if items sc = 1 then res\<lparr>Bytes := bytes'\<rparr> else res);
             layers' = (if items (Sscanf line ''Pulling fs layer'' 0) > 0
                        then wrap64 (layers + 1) else layers)
         in scan_lines lines (layers', bytes', res')))"

definition parseDockerOutput :: "Result \<Rightarrow> string \<Rightarrow> Result" where
  "parseDockerOutput res output =
     (case scan_lines (splitLines output) (0, 0, res) of
        (layers, bytes, res') \<Rightarrow> if layers > 0 then res'\<lparr>Layers := layers\<rparr> else res')"

text \<open>Three marker lines, as a runtime prints them when it starts on three layers.\<close>

definition three_layers :: string where
  "three_layers =
     ''Pulling fs layer'' @ [CHR 0x0A] @ ''Pulling fs layer'' @ [CHR 0x0A] @ ''Pulling fs layer''"

text \<open>The lines on which the second scan stores a number.\<close>

definition byte_lines :: "string list \<Rightarrow> string list" where
  "byte_lines ls = filter (\<lambda>l. items (Sscanf l ''%dB'' 1) = 1) ls"

subsection \<open>One pull of the benchmark\<close>

text \<open>
  Lines 62 to 86, the body of a benchmark goroutine between the gate and the lock. What
  the outside world answers is a parameter: the bytes and the error of
  \<^verbatim>\<open>cmd.CombinedOutput()\<close> (\<open>cmd_err\<close> holds \<^verbatim>\<open>err.Error()\<close> when \<^verbatim>\<open>err != nil\<close>), the
  clock readings, and the context. The context of \<^verbatim>\<open>context.WithTimeout\<close> is
  cancelled by its timer at one instant, \<open>ctx_done_at\<close>; \<^verbatim>\<open>ctx.Err()\<close> is \<^verbatim>\<open>nil\<close>
  before that instant and \<^verbatim>\<open>context.DeadlineExceeded\<close> from then on (\<^verbatim>\<open>cancel\<close> is
  deferred to the end of the goroutine). The source reads \<^verbatim>\<open>ctx.Err()\<close> when it computes
  \<^verbatim>\<open>Success\<close> (line 73), at \<open>success_read_at\<close>, and again when it fills in \<^verbatim>\<open>Error\<close>
  (lines 82 and 83), \<open>check_delay\<close> later; the two reads of lines 82 and 83 return the
  same error, since a context keeps the error it once returned.
\<close>

record pull_env =
  cmd_output :: string
  cmd_err :: "string option"
  elapsed_ms :: int
  start_text :: string
  end_text :: string
  ctx_done_at :: nat
  success_read_at :: nat
  check_delay :: nat

definition ctx_Err :: "pull_env \<Rightarrow> nat \<Rightarrow> string option" where
  "ctx_Err env now =
     (if ctx_done_at env \<le> now then Some ''context deadline exceeded'' else None)"

definition pull_result :: "string \<Rightarrow> pull_env \<Rightarrow> Result" where
  "pull_result imageURL env =
     (let res = \<lparr>Image = imageURL, Registry = parseRegistry imageURL,
                 Success = (cmd_err env = None \<and> ctx_Err env (success_read_at env) = None),
                 PullTimeMs = elapsed_ms env, StartTime = start_text env,
                 EndTime = end_text env, Error = [], Bytes = 0, Layers = 0,
                 CmdOutput = cmd_output env\<rparr>;
          res = (case cmd_err env of None \<Rightarrow> res | Some e \<Rightarrow> res\<lparr>Error := e\<rparr>);
          res = (case ctx_Err env (success_read_at env + check_delay env) of
                   None \<Rightarrow> res
                 | Some e \<Rightarrow> res\<lparr>Error := e\<rparr>)
      in parseDockerOutput res (cmd_output env))"

text \<open>
  A pull that exits with status 0 one millisecond before a deadline of 120 seconds; the
  deadline passes between line 73 and line 82.
\<close>

definition env_just_in_time :: pull_env where
  "env_just_in_time =
     \<lparr>cmd_output = ''Status: Image is up to date'', cmd_err = None, elapsed_ms = 119999,
      start_text = ''2024-01-01T00:00:00Z'', end_text = ''2024-01-01T00:02:00Z'',
      ctx_done_at = 120000, success_read_at = 119999, check_delay = 1\<rparr>"

text \<open>A pull killed at its deadline: the command reports an error and the context is done.\<close>

definition env_killed :: pull_env where
  "env_killed =
     \<lparr>cmd_output = [], cmd_err = Some ''signal: killed'', elapsed_ms = 120003,
      start_text = ''2024-01-01T00:00:00Z'', end_text = ''2024-01-01T00:02:00Z'',
      ctx_done_at = 120000, success_read_at = 120003, check_delay = 0\<rparr>"

text \<open>A pull that fails after two seconds, long before its deadline.\<close>

definition env_failed :: pull_env where
  "env_failed =
     \<lparr>cmd_output = ''Error response from daemon: manifest unknown'',
      cmd_err = Some ''exit status 1'', elapsed_ms = 2000,
      start_text = ''2024-01-01T00:00:00Z'', end_text = ''2024-01-01T00:00:02Z'',
      ctx_done_at = 120000, success_read_at = 2000, check_delay = 0\<rparr>"

subsection \<open>The warmup loop\<close>

text \<open>
  Lines 207 to 240. The loop runs shell commands and sleeps; the model records them in
  order. \<open>runs i\<close> is what \<^verbatim>\<open>runCommand\<close> answers in iteration \<open>i\<close>: the error text, if
  any, and the elapsed milliseconds.
\<close>

datatype event = Rmi string | Pull string | Sleep int

record warmup_result =
  Iteration :: int
  PullTimeMs_w :: int
  CacheState :: string
  Success_w :: bool
  Error_w :: string

function warmup_loop ::
  "string \<Rightarrow> int \<Rightarrow> int \<Rightarrow> (int \<Rightarrow> string option \<times> int) \<Rightarrow> int
     \<Rightarrow> event list \<times> warmup_result list \<Rightarrow> event list \<times> warmup_result list" where
  "warmup_loop imageURL iterations delay runs i (events, results) =
     (if i \<le> iterations then
        (let events = (if i = 1 then events @ [Rmi imageURL] else events);
             events = events @ [Pull imageURL];
             cacheState = (if i > 1 then ''warm'' else ''cold'');
             res = \<lparr>Iteration = i, PullTimeMs_w = snd (runs i), CacheState = cacheState,
                    Success_w = (fst (runs i) = None), Error_w = []\<rparr>;
             res = (case fst (runs i) of None \<Rightarrow> res | Some e \<Rightarrow> res\<lparr>Error_w := e\<rparr>);
             results = results @ [res];
             events = (if i < iterations then events @ [Rmi imageURL, Sleep delay] else events)
         in warmup_loop imageURL iterations delay runs (i + 1) (events, results))
      else (events, results))"
  by pat_completeness auto
termination
  by (relation "measure (\<lambda>(imageURL, iterations, delay, runs, i, st). nat (iterations + 1 - i))")
     auto

definition warmupCmd ::
  "string \<Rightarrow> int \<Rightarrow> int \<Rightarrow> (int \<Rightarrow> string option \<times> int)
     \<Rightarrow> event list \<times> warmup_result list" where
  "warmupCmd imageURL iterations delay runs = warmup_loop imageURL iterations delay runs 1 ([], [])"

fun is_Rmi :: "event \<Rightarrow> bool" where
  "is_Rmi (Rmi _) = True"
| "is_Rmi _ = False"

text \<open>Every pull succeeds in half a second.\<close>

definition runs_ok :: "int \<Rightarrow> string option \<times> int" where
  "runs_ok i = (None, 500)"

subsection \<open>The benchmark goroutines\<close>

text \<open>
  Lines 52 to 93: the main goroutine makes the gate \<^verbatim>\<open>sem\<close>, starts one goroutine per
  argument (\<^verbatim>\<open>wg.Add(1)\<close>, then \<^verbatim>\<open>go\<close>) and waits at \<^verbatim>\<open>wg.Wait()\<close>. The goroutines
  run interleaved; the model gives each a program counter and lets a schedule, a list of
  actions, choose who moves next. One action is one of the synchronising operations of
  the source, together with the local code up to the next one:

  \<^item> main: \<^verbatim>\<open>make(chan struct{}, concurrency)\<close>, which panics on a negative size; one
    turn of the \<^verbatim>\<open>for\<close> loop; \<^verbatim>\<open>wg.Wait()\<close>, which passes when the counter is 0;
  \<^item> a worker: \<^verbatim>\<open>sem <- struct{}{}\<close>, which passes while the buffer has room; the
    return of \<^verbatim>\<open>cmd.CombinedOutput()\<close> with what the command answered;
    \<^verbatim>\<open>resultsMu.Lock()\<close>, which passes when the mutex is free; the \<^verbatim>\<open>append\<close>;
    \<^verbatim>\<open>resultsMu.Unlock()\<close>; \<^verbatim>\<open><-sem\<close>, which passes when the buffer is not empty; and
    the deferred \<^verbatim>\<open>cancel()\<close> and \<^verbatim>\<open>wg.Done()\<close>;
  \<^item> a hand-off: a send and a receive on \<^verbatim>\<open>sem\<close> that meet while the buffer is empty,
    the only way a channel of capacity 0 passes a value.

  An action that cannot pass is not enabled: the goroutine stays blocked. Once main has
  returned or panicked the process is over and nothing moves. The external command is
  taken to come back (the runtime kills it at the deadline); when it does is up to the
  schedule. The flag \<^verbatim>\<open>timeoutSec\<close> only fixes when the context of a pull is cancelled,
  which is part of what the pull answers (\<open>pull_env\<close>), so the configuration keeps the
  arguments and \<^verbatim>\<open>concurrency\<close>.
\<close>

datatype main_pc = MMake | MDispatch nat | MWait | MReturned | MPanic

datatype worker_pc =
  WAcquire | WPull | WLock Result | WAppend Result | WUnlock | WRelease | WDone | WExit

record worker =
  w_image :: string
  w_pc :: worker_pc

record bench =
  main :: main_pc
  sem :: nat
  resultsMu :: bool
  wg :: int
  results :: "Result list"
  workers :: "worker list"

record config =
  args :: "string list"
  concurrency :: int

definition bench_init :: bench where
  "bench_init =
     \<lparr>main = MMake, sem = 0, resultsMu = False, wg = 0, results = [], workers = []\<rparr>"

definition set_pc :: "nat \<Rightarrow> worker_pc \<Rightarrow> bench \<Rightarrow> bench" where
  "set_pc i p s = s\<lparr>workers := (workers s)[i := (workers s ! i)\<lparr>w_pc := p\<rparr>]\<rparr>"

definition main_step :: "config \<Rightarrow> bench \<Rightarrow> bench option" where
  "main_step cfg s =
     (case main s of
        MMake \<Rightarrow>
          if concurrency cfg < 0 then Some (s\<lparr>main := MPanic\<rparr>)
          else Some (s\<lparr>main := MDispatch 0\<rparr>)
      | MDispatch k \<Rightarrow>
          if k < length (args cfg) then
            Some (s\<lparr>main := MDispatch (Suc k), wg := wg s + 1,
                    workers := workers s @ [\<lparr>w_image = args cfg ! k, w_pc = WAcquire\<rparr>]\<rparr>)
          else Some (s\<lparr>main := MWait\<rparr>)
      | MWait \<Rightarrow> if wg s = 0 then Some (s\<lparr>main := MReturned\<rparr>) else None
      | MReturned \<Rightarrow> None
      | MPanic \<Rightarrow> None)"

definition worker_step :: "config \<Rightarrow> nat \<Rightarrow> bench \<Rightarrow> bench option" where
  "worker_step cfg i s =
     (if i < length (workers s) then
        (case w_pc (workers s ! i) of
           WAcquire \<Rightarrow>
             if int (sem s) < concurrency cfg then Some (set_pc i WPull (s\<lparr>sem := sem s + 1\<rparr>))
             else None
         | WPull \<Rightarrow> None
         | WLock r \<Rightarrow>
             if resultsMu s then None else Some (set_pc i (WAppend r) (s\<lparr>resultsMu := True\<rparr>))
         | WAppend r \<Rightarrow> Some (set_pc i WUnlock (s\<lparr>results := results s @ [r]\<rparr>))
         | WUnlock \<Rightarrow> Some (set_pc i WRelease (s\<lparr>resultsMu := False\<rparr>))
         | WRelease \<Rightarrow>
             if sem s > 0 then Some (set_pc i WDone (s\<lparr>sem := sem s - 1\<rparr>)) else None
         | WDone \<Rightarrow> Some (set_pc i WExit (s\<lparr>wg := wg s - 1\<rparr>))
         | WExit \<Rightarrow> None)
      else None)"

definition command_returns :: "nat \<Rightarrow> pull_env \<Rightarrow> bench \<Rightarrow> bench option" where
  "command_returns i env s =
     (if i < length (workers s) \<and> w_pc (workers s ! i) = WPull
      then Some (set_pc i (WLock (pull_result (w_image (workers s ! i)) env)) s)
      else None)"

definition handoff :: "nat \<Rightarrow> nat \<Rightarrow> bench \<Rightarrow> bench option" where
  "handoff i j s =
     (if i < length (workers s) \<and> j < length (workers s) \<and> sem s = 0
         \<and> w_pc (workers s ! i) = WAcquire \<and> w_pc (workers s ! j) = WRelease
      then Some (set_pc i WPull (set_pc j WDone s))
      else None)"

datatype action = Main | Worker nat | Returns nat pull_env | Handoff nat nat

definition exec :: "config \<Rightarrow> action \<Rightarrow> bench \<Rightarrow> bench option" where
  "exec cfg a s =
     (if main s = MReturned \<or> main s = MPanic then None
      else
        (case a of
           Main \<Rightarrow> main_step cfg s
         | Worker i \<Rightarrow> worker_step cfg i s
         | Returns i env \<Rightarrow> command_returns i env s
         | Handoff i j \<Rightarrow> handoff i j s))"

text \<open>A schedule runs from a state; \<open>None\<close> when one of its actions is not enabled.\<close>

fun run :: "config \<Rightarrow> action list \<Rightarrow> bench \<Rightarrow> bench option" where
  "run cfg [] s = Some s"
| "run cfg (a # as) s = (case exec cfg a s of None \<Rightarrow> None | Some s' \<Rightarrow> run cfg as s')"

text \<open>
  A worker holds a slot of the gate from its send on \<^verbatim>\<open>sem\<close> to its receive; its pull
  is active while the command runs.
\<close>

fun holds_slot :: "worker_pc \<Rightarrow> bool" where
  "holds_slot WAcquire = False"
| "holds_slot WDone = False"
| "holds_slot WExit = False"
| "holds_slot _ = True"

definition in_flight :: "bench \<Rightarrow> nat" where
  "in_flight s = length (filter (\<lambda>w. holds_slot (w_pc w)) (workers s))"

definition pulling :: "bench \<Rightarrow> nat" where
  "pulling s = length (filter (\<lambda>w. w_pc w = WPull) (workers s))"

text \<open>The longest any schedule can be: three moves of main and seven per image, and spare.\<close>

definition max_steps :: "config \<Rightarrow> nat" where
  "max_steps cfg = 9 * length (args cfg) + 3"

text \<open>
  What ties the counters of the program to the program counters of its goroutines: the
  buffer of \<^verbatim>\<open>sem\<close> holds one token per worker between its send and its receive and
  never more than the capacity; the mutex is held exactly while one worker is between
  \<^verbatim>\<open>Lock\<close> and \<^verbatim>\<open>Unlock\<close>; the counter of \<^verbatim>\<open>wg\<close> is the number of workers that have not
  run \<^verbatim>\<open>wg.Done()\<close>; \<^verbatim>\<open>results\<close> holds one result per worker that is past its
  \<^verbatim>\<open>append\<close>, for that worker's image; and the workers started so far are those of the
  arguments the loop has passed.
\<close>

fun in_critical :: "worker_pc \<Rightarrow> bool" where
  "in_critical (WAppend _) = True"
| "in_critical WUnlock = True"
| "in_critical _ = False"

fun appended :: "worker_pc \<Rightarrow> bool" where
  "appended WUnlock = True"
| "appended WRelease = True"
| "appended WDone = True"
| "appended WExit = True"
| "appended _ = False"

definition carries :: "worker \<Rightarrow> bool" where
  "carries w =
     (case w_pc w of
        WLock r \<Rightarrow> Image r = w_image w
      | WAppend r \<Rightarrow> Image r = w_image w
      | _ \<Rightarrow> True)"

fun dispatched :: "config \<Rightarrow> main_pc \<Rightarrow> nat" where
  "dispatched cfg MMake = 0"
| "dispatched cfg (MDispatch k) = k"
| "dispatched cfg MWait = length (args cfg)"
| "dispatched cfg MReturned = length (args cfg)"
| "dispatched cfg MPanic = 0"

definition invariant :: "config \<Rightarrow> bench \<Rightarrow> bool" where
  "invariant cfg s \<longleftrightarrow>
     sem s = in_flight s \<and> int (sem s) \<le> max 0 (concurrency cfg)
     \<and> length (filter (\<lambda>w. in_critical (w_pc w)) (workers s)) = (if resultsMu s then 1 else 0)
     \<and> wg s = int (length (filter (\<lambda>w. w_pc w \<noteq> WExit) (workers s)))
     \<and> mset (map Image (results s)) =
         mset (map w_image (filter (\<lambda>w. appended (w_pc w)) (workers s)))
     \<and> list_all carries (workers s)
     \<and> map w_image (workers s) = take (dispatched cfg (main s)) (args cfg)
     \<and> dispatched cfg (main s) \<le> length (args cfg)
     \<and> (if main s = MReturned then wg s = 0 else True)
     \<and> (if main s = MPanic then concurrency cfg < 0 else True)"

text \<open>
  A bound on what is left to do: every action lowers \<open>rank\<close>.
\<close>

fun pc_rank :: "worker_pc \<Rightarrow> nat" where
  "pc_rank WAcquire = 7"
| "pc_rank WPull = 6"
| "pc_rank (WLock _) = 5"
| "pc_rank (WAppend _) = 4"
| "pc_rank WUnlock = 3"
| "pc_rank WRelease = 2"
| "pc_rank WDone = 1"
| "pc_rank WExit = 0"

fun main_rank :: "config \<Rightarrow> main_pc \<Rightarrow> nat" where
  "main_rank cfg MMake = 9 * length (args cfg) + 3"
| "main_rank cfg (MDispatch k) = 9 * (length (args cfg) - k) + 2"
| "main_rank cfg MWait = 1"
| "main_rank cfg MReturned = 0"
| "main_rank cfg MPanic = 0"

definition rank :: "config \<Rightarrow> bench \<Rightarrow> nat" where
  "rank cfg s = main_rank cfg (main s) + sum_list (map (\<lambda>w. pc_rank (w_pc w)) (workers s))"

text \<open>Concrete runs: configurations, schedules and the states they reach.\<close>

definition env_ok :: pull_env where
  "env_ok =
     \<lparr>cmd_output = [], cmd_err = None, elapsed_ms = 800,
      start_text = ''2024-01-01T00:00:00Z'', end_text = ''2024-01-01T00:00:01Z'',
      ctx_done_at = 120000, success_read_at = 800, check_delay = 0\<rparr>"

text \<open>
  Two images, two slots: both workers pull at once, the second pull fails first, and
  each appends under the lock before main passes \<^verbatim>\<open>wg.Wait()\<close>.
\<close>

definition cfg_two :: config where
  "cfg_two = \<lparr>args = [''alpine'', ''nginx''], concurrency = 2\<rparr>"

definition sched_two :: "action list" where
  "sched_two =
     [Main, Main, Main, Main, Worker 0, Worker 1, Returns 1 env_killed, Returns 0 env_ok,
      Worker 1, Worker 1, Worker 1, Worker 0, Worker 0, Worker 0, Worker 0, Worker 0,
      Worker 1, Worker 1, Main]"

definition final_two :: bench where
  "final_two =
     \<lparr>main = MReturned, sem = 0, resultsMu = False, wg = 0,
      results = [pull_result ''nginx'' env_killed, pull_result ''alpine'' env_ok],
      workers = [\<lparr>w_image = ''alpine'', w_pc = WExit\<rparr>, \<lparr>w_image = ''nginx'', w_pc = WExit\<rparr>]\<rparr>"

definition one_started :: bench where
  "one_started =
     \<lparr>main = MDispatch 1, sem = 0, resultsMu = False, wg = 1, results = [],
      workers = [\<lparr>w_image = ''alpine'', w_pc = WAcquire\<rparr>]\<rparr>"

text \<open>Five images, two slots: after two sends on the gate the third worker is blocked.\<close>

definition cfg_five :: config where
  "cfg_five = \<lparr>args = [''a'', ''b'', ''c'', ''d'', ''e''], concurrency = 2\<rparr>"

definition sched_five :: "action list" where
  "sched_five = [Main, Main, Main, Main, Main, Main, Main, Worker 0, Worker 1]"

definition two_pulling :: bench where
  "two_pulling =
     \<lparr>main = MWait, sem = 2, resultsMu = False, wg = 5, results = [],
      workers = [\<lparr>w_image = ''a'', w_pc = WPull\<rparr>, \<lparr>w_image = ''b'', w_pc = WPull\<rparr>,
        \<lparr>w_image = ''c'', w_pc = WAcquire\<rparr>, \<lparr>w_image = ''d'', w_pc = WAcquire\<rparr>,
        \<lparr>w_image = ''e'', w_pc = WAcquire\<rparr>]\<rparr>"

text \<open>\<^verbatim>\<open>benchmark -c 0 ubuntu\<close>: the gate has no room and nobody receives.\<close>

definition cfg_zero :: config where
  "cfg_zero = \<lparr>args = [''ubuntu''], concurrency = 0\<rparr>"

definition blocked :: bench where
  "blocked =
     \<lparr>main = MWait, sem = 0, resultsMu = False, wg = 1, results = [],
      workers = [\<lparr>w_image = ''ubuntu'', w_pc = WAcquire\<rparr>]\<rparr>"

section \<open>Properties\<close>

subsection \<open>parseRegistry\<close>

lemma indexOf_from_notin: "c \<notin> set s \<Longrightarrow> indexOf_from s c i = - 1"
  by (induction s arbitrary: i) auto

lemma indexOf_from_in:
  "c \<in> set s \<Longrightarrow> indexOf_from s c i = i + int (length (takeWhile (\<lambda>ch. ch \<noteq> c) s))"
  by (induction s arbitrary: i) auto

lemma indexOf_eq:
  "indexOf s c = (if c \<in> set s then int (length (takeWhile (\<lambda>ch. ch \<noteq> c) s)) else - 1)"
  by (simp add: indexOf_def indexOf_from_notin indexOf_from_in)

lemma isOfficialDockerHub_eq:
  "isOfficialDockerHub img \<longleftrightarrow> CHR ''.'' \<notin> set img \<and> CHR '':'' \<notin> set img"
  by (simp add: isOfficialDockerHub_def indexOf_eq)

text \<open>
  What the code computes: the text before the first \<^verbatim>\<open>/\<close> when that text is not empty
  and a dot or a colon stands anywhere in the whole reference, the default label
  otherwise.
\<close>

lemma parseRegistry_eq:
  "parseRegistry img =
     (if CHR ''/'' \<in> set img \<and> takeWhile (\<lambda>ch. ch \<noteq> CHR ''/'') img \<noteq> []
         \<and> (CHR ''.'' \<in> set img \<or> CHR '':'' \<in> set img)
      then takeWhile (\<lambda>ch. ch \<noteq> CHR ''/'') img else ''docker.io'')"
proof -
  have "take (length (takeWhile P xs)) xs = takeWhile P xs" for P and xs :: string
    by (induction xs) auto
  then show ?thesis
    unfolding parseRegistry_def isOfficialDockerHub_eq
    by (auto simp add: indexOf_eq Let_def)
qed

text \<open>
  C3. The claim: the label depends only on the text before the first \<^verbatim>\<open>/\<close>, so
  \<^verbatim>\<open>library/ubuntu:latest\<close> resolves to \<^verbatim>\<open>docker.io\<close>. The code looks for the dot and
  the colon in the whole reference: the colon of the tag makes it return \<^verbatim>\<open>library\<close>.
\<close>

theorem parseRegistry_tag_after_slash:
  "parseRegistry ''library/ubuntu:latest'' = ''library''"
  by (simp add: parseRegistry_def isOfficialDockerHub_def indexOf_def)

subsection \<open>printSummary\<close>

lemma summary_loop_no_success:
  "list_all (\<lambda>r. \<not> Success r) rs \<Longrightarrow> summary_loop rs i acc = acc"
  by (induction rs arbitrary: i acc) (auto simp: prod_eq_iff)

text \<open>
  With no successful result the locals keep their zeros and the average is the float
  division of zero by zero.
\<close>

lemma printSummary_no_success:
  "list_all (\<lambda>r. \<not> Success r) rs \<Longrightarrow> avg_ms (printSummary rs) = NaN"
  by (simp add: printSummary_def summary_loop_no_success float64_div_def)

text \<open>The example of the specification, in the order it gives: the code agrees.\<close>

lemma printSummary_example:
  "printSummary [result_of True 100, result_of True 300, result_of False 0] =
     \<lparr>succeeded = 2, total = 3, min_ms = 100, max_ms = 300, avg_ms = Finite 200\<rparr>"
  by (simp add: printSummary_def result_of_def wrap64_def float64_div_def)

text \<open>
  C6. The claim: min, max and avg are taken over the successful results, wherever the
  failed ones stand. The code seeds \<^verbatim>\<open>min\<close> with the first successful result only when
  that result is the first of the whole sequence (\<^verbatim>\<open>i == 0\<close>): the results of the
  specification's example with the failed one moved to the front give min = 0, not 100.
\<close>

theorem printSummary_failed_first:
  "printSummary [result_of False 0, result_of True 100, result_of True 300] =
     \<lparr>succeeded = 2, total = 3, min_ms = 0, max_ms = 300, avg_ms = Finite 200\<rparr>"
  by (simp add: printSummary_def result_of_def wrap64_def float64_div_def)

text \<open>
  C7. The claim: with no successful result the summary reports an average that was
  defined on purpose, not the outcome of an unguarded division by zero. The code divides
  \<^verbatim>\<open>float64(sum)\<close> by \<^verbatim>\<open>float64(success)\<close> with no test: for one failed pull it prints
  the NaN of zero by zero.
\<close>

theorem printSummary_single_failure:
  "printSummary [result_of False 1500] =
     \<lparr>succeeded = 0, total = 1, min_ms = 0, max_ms = 0, avg_ms = NaN\<rparr>"
  by (simp add: printSummary_def result_of_def float64_div_def)

subsection \<open>Sscanf and parseDockerOutput\<close>

text \<open>Without an operand the count never leaves its start value.\<close>

lemma doScanf_no_operand: "items (doScanf fmt inp 0 np vs) = np"
  by (induction fmt inp "0::nat" np vs rule: doScanf.induct)
     (auto split: list.splits option.splits)

lemma Sscanf_no_operand: "items (Sscanf line fmt 0) = 0"
  by (simp add: Sscanf_def doScanf_no_operand)

lemma doScanf_stored:
  "length (stored (doScanf fmt inp k np vs)) + np = length vs + items (doScanf fmt inp k np vs)"
  by (induction fmt inp k np vs rule: doScanf.induct)
     (simp_all split: list.split option.split)

lemma Sscanf_stored: "length (stored (Sscanf line fmt k)) = items (Sscanf line fmt k)"
  using doScanf_stored [of fmt line k 0 "[]"] by (simp add: Sscanf_def)

text \<open>The three calls of the program stay inside the modelled part of the scanner.\<close>

lemma Sscanf_formats_modelled:
  "status (Sscanf line ''Downloaded newer image for %*s'' 0) \<noteq> Unmodelled"
  "status (Sscanf line ''%dB'' 1) \<noteq> Unmodelled"
  "status (Sscanf line ''Pulling fs layer'' 0) \<noteq> Unmodelled"
  by (simp_all add: Sscanf_def isSpace_def isDigit_def split: option.splits)

lemma scan_lines_layers:
  "fst (scan_lines ls (layers, bytes, res)) = layers \<and>
   Layers (snd (snd (scan_lines ls (layers, bytes, res)))) = Layers res"
  by (induction ls arbitrary: bytes res) (simp_all add: Sscanf_no_operand Let_def)

text \<open>No output makes \<^verbatim>\<open>parseDockerOutput\<close> touch the layer count.\<close>

lemma parseDockerOutput_Layers: "Layers (parseDockerOutput res output) = Layers res"
proof -
  obtain l b r where eq: "scan_lines (splitLines output) (0, 0, res) = (l, b, r)"
    by (metis prod_cases3)
  from scan_lines_layers [of "splitLines output" 0 0 res] show ?thesis
    by (simp add: parseDockerOutput_def eq)
qed

lemma scan_lines_Bytes:
  "Bytes (snd (snd (scan_lines ls (layers, bytes, res)))) =
     (if byte_lines ls = [] then Bytes res
      else hd (stored (Sscanf (last (byte_lines ls)) ''%dB'' 1)))"
proof (induction ls arbitrary: layers bytes res)
  case Nil
  then show ?case by (simp add: byte_lines_def)
next
  case (Cons l ls)
  have st: "items (Sscanf l ''%dB'' 1) = 1 \<Longrightarrow>
      (case stored (Sscanf l ''%dB'' 1) of [] \<Rightarrow> bytes | v # _ \<Rightarrow> v) = hd (stored (Sscanf l ''%dB'' 1))"
    using Sscanf_stored [of l "''%dB''" 1] by (cases "stored (Sscanf l ''%dB'' 1)") auto
  show ?case
    using st by (simp add: Cons.IH Sscanf_no_operand Let_def byte_lines_def)
qed

text \<open>
  The byte count is the number scanned on the last line that starts with one (after
  blanks and a sign), whatever follows the digits; with no such line it is untouched.
\<close>

lemma parseDockerOutput_Bytes:
  "Bytes (parseDockerOutput res output) =
     (if byte_lines (splitLines output) = [] then Bytes res
      else hd (stored (Sscanf (last (byte_lines (splitLines output))) ''%dB'' 1)))"
proof -
  obtain l b r where eq: "scan_lines (splitLines output) (0, 0, res) = (l, b, r)"
    by (metis prod_cases3)
  from scan_lines_Bytes [of "splitLines output" 0 0 res] show ?thesis
    by (simp add: parseDockerOutput_def eq)
qed

lemma parseDockerOutput_1234B:
  "Bytes (parseDockerOutput (result_of True 1500) ''1234B'') = 1234"
  by (simp add: parseDockerOutput_def Sscanf_no_operand Sscanf_def splitLines_def
      SkipSpace_def scanInt_def isSpace_def isDigit_def result_of_def digits_val_def)

lemma parseDockerOutput_last_wins:
  "Bytes (parseDockerOutput (result_of True 1500) (''1234B'' @ [CHR 0x0A] @ ''77B'')) = 77"
  by (simp add: parseDockerOutput_def Sscanf_no_operand Sscanf_def splitLines_def
      SkipSpace_def scanInt_def isSpace_def isDigit_def result_of_def digits_val_def)

text \<open>
  C4. The claim: a line \<^verbatim>\<open>1234B\<close> sets the byte count to 1234, three lines
  \<^verbatim>\<open>Pulling fs layer\<close> set the layer count to 3, and an output with neither leaves both
  absent. The byte count is 1234 when that line is the last one that starts with a
  number (\<open>parseDockerOutput_1234B\<close>, \<open>parseDockerOutput_Bytes\<close>). The layer counter
  is raised when \<^verbatim>\<open>Sscanf(line, "Pulling fs layer")\<close> returns a positive count, and a
  scan with no operand returns 0: on three marker lines the result is handed back
  unchanged, with no layer count.
\<close>

theorem parseDockerOutput_three_layers:
  "parseDockerOutput (result_of True 1500) three_layers = result_of True 1500"
  by (simp add: parseDockerOutput_def three_layers_def Sscanf_no_operand Sscanf_def splitLines_def
      SkipSpace_def scanInt_def isSpace_def isDigit_def result_of_def)

subsection \<open>One pull of the benchmark\<close>

text \<open>\<^verbatim>\<open>parseDockerOutput\<close> changes no field but the byte count.\<close>

lemma scan_lines_frame:
  "\<exists>b. snd (snd (scan_lines ls (layers, bytes, res))) = res\<lparr>Bytes := b\<rparr>"
proof (induction ls arbitrary: layers bytes res)
  case Nil
  have "res = res\<lparr>Bytes := Bytes res\<rparr>" by simp
  then show ?case by (metis scan_lines.simps(1) snd_conv)
next
  case (Cons l ls)
  show ?case
    using Cons.IH [of _ _ res] Cons.IH [of _ _ "res\<lparr>Bytes := b'\<rparr>" for b']
    by (auto simp: Let_def)
qed

lemma parseDockerOutput_frame: "\<exists>b. parseDockerOutput res out = res\<lparr>Bytes := b\<rparr>"
proof -
  obtain l b r where eq: "scan_lines (splitLines out) (0, 0, res) = (l, b, r)"
    by (metis prod_cases3)
  from scan_lines_layers [of "splitLines out" 0 0 res] scan_lines_frame [of "splitLines out" 0 0 res]
  show ?thesis by (simp add: parseDockerOutput_def eq)
qed

lemma parseDockerOutput_keeps:
  "Success (parseDockerOutput res out) = Success res"
  "Error (parseDockerOutput res out) = Error res"
  "Image (parseDockerOutput res out) = Image res"
  using parseDockerOutput_frame [of res out] by auto

lemma pull_result_Image: "Image (pull_result img env) = img"
  by (simp add: pull_result_def Let_def parseDockerOutput_keeps split: option.split)

text \<open>
  \<^verbatim>\<open>Success\<close> is computed from the command's error and the first reading of the
  context.
\<close>

lemma pull_result_Success:
  "Success (pull_result img env) \<longleftrightarrow>
     cmd_err env = None \<and> ctx_Err env (success_read_at env) = None"
  by (simp add: pull_result_def Let_def parseDockerOutput_keeps split: option.split)

text \<open>If the context is still live at the second reading, a success has no error text.\<close>

lemma pull_result_Error_empty:
  "Success (pull_result img env) \<Longrightarrow>
   ctx_Err env (success_read_at env + check_delay env) = None \<Longrightarrow>
   Error (pull_result img env) = []"
  unfolding pull_result_Success
  by (simp add: pull_result_def Let_def parseDockerOutput_keeps)

text \<open>
  C8. The claim: \<^verbatim>\<open>success\<close> is true exactly when the command exited without error and
  the deadline did not expire, and a true \<^verbatim>\<open>success\<close> comes with an empty \<^verbatim>\<open>error\<close>. The
  first half is \<open>pull_result_Success\<close>. For the second, the code asks the context again
  after it has fixed \<^verbatim>\<open>Success\<close>: a deadline that passes between the two readings gives
  a result with \<^verbatim>\<open>Success\<close> true and the timeout text in \<^verbatim>\<open>Error\<close>.
\<close>

theorem pull_result_success_with_error:
  "Success (pull_result ''ubuntu'' env_just_in_time) \<and>
   Error (pull_result ''ubuntu'' env_just_in_time) = ''context deadline exceeded''"
  by (simp add: pull_result_def Let_def parseDockerOutput_keeps env_just_in_time_def ctx_Err_def)

text \<open>
  C10. When the command returned an error, line 80 stores its text in \<^verbatim>\<open>Error\<close>, and the
  text stays while the context is live when line 82 asks. When the context is done at
  line 82, the assignment of line 83 comes after that of line 80 and replaces the
  command's text with the context's, \<^verbatim>\<open>context deadline exceeded\<close>.
\<close>

theorem pull_result_timeout_overwrites:
  assumes "cmd_err env = Some e"
  shows "Error (pull_result imageURL env) =
     (if ctx_Err env (success_read_at env + check_delay env) = None then e
      else ''context deadline exceeded'')"
  using assms
  by (simp add: pull_result_def Let_def parseDockerOutput_keeps ctx_Err_def)

text \<open>
  Both cases at work: a pull killed at its deadline carries the timeout text, not
  \<^verbatim>\<open>signal: killed\<close>; a pull that fails early carries the command's \<^verbatim>\<open>exit status 1\<close>.
\<close>

theorem pull_result_timeout_overwrites_witness:
  "cmd_err env_killed = Some ''signal: killed'' \<and>
   ctx_Err env_killed (success_read_at env_killed + check_delay env_killed) \<noteq> None \<and>
   Error (pull_result ''ubuntu'' env_killed) = ''context deadline exceeded'' \<and>
   cmd_err env_failed = Some ''exit status 1'' \<and>
   ctx_Err env_failed (success_read_at env_failed + check_delay env_failed) = None \<and>
   Error (pull_result ''ubuntu'' env_failed) = ''exit status 1''"
proof -
  have e: "cmd_err env_killed = Some ''signal: killed''"
    by (simp add: env_killed_def)
  have c: "ctx_Err env_killed (success_read_at env_killed + check_delay env_killed) \<noteq> None"
    by (simp add: env_killed_def ctx_Err_def)
  have e': "cmd_err env_failed = Some ''exit status 1''"
    by (simp add: env_failed_def)
  have c': "ctx_Err env_failed (success_read_at env_failed + check_delay env_failed) = None"
    by (simp add: env_failed_def ctx_Err_def)
  from pull_result_timeout_overwrites [OF e, of "''ubuntu''"]
    pull_result_timeout_overwrites [OF e', of "''ubuntu''"] e c e' c'
  show ?thesis by simp
qed

subsection \<open>The warmup loop\<close>

lemmas warmup_unfold =
  warmup_loop.simps [of _ 3 _ _ 1] warmup_loop.simps [of _ 3 _ _ 2]
  warmup_loop.simps [of _ 3 _ _ 3] warmup_loop.simps [of _ 3 _ _ 4]

text \<open>
  C9, as amended. A warmup of three iterations, whatever the pulls answer, labels
  iteration 1 \<^verbatim>\<open>cold\<close> and iterations 2 and 3 \<^verbatim>\<open>warm\<close>, and runs the removal command
  three times: before the first pull and after the first and the second, never after
  the third.
\<close>

theorem warmup_three_iterations:
  "fst (warmupCmd imageURL 3 delay runs) =
     [Rmi imageURL, Pull imageURL, Rmi imageURL, Sleep delay,
      Pull imageURL, Rmi imageURL, Sleep delay, Pull imageURL] \<and>
   map Iteration (snd (warmupCmd imageURL 3 delay runs)) = [1, 2, 3] \<and>
   map CacheState (snd (warmupCmd imageURL 3 delay runs)) = [''cold'', ''warm'', ''warm''] \<and>
   length (filter is_Rmi (fst (warmupCmd imageURL 3 delay runs))) = 3"
  by (simp add: warmupCmd_def warmup_unfold Let_def split: option.split)

text \<open>
  C9, as stated: exactly two removal attempts over the run. A run of three iterations
  on \<^verbatim>\<open>ubuntu\<close> does not make two.
\<close>

theorem warmup_not_two_removals:
  "length (filter is_Rmi (fst (warmupCmd ''ubuntu'' 3 1000 runs_ok))) \<noteq> 2"
  by (simp add: warmupCmd_def warmup_unfold Let_def runs_ok_def)

subsection \<open>The benchmark goroutines: the invariant\<close>

lemma filter_update_add:
  "i < length ws \<Longrightarrow>
     length (filter P (ws[i := w])) + (if P (ws ! i) then 1 else 0) =
     length (filter P ws) + (if P w then 1 else 0)"
proof (induction ws arbitrary: i)
  case Nil
  then show ?case by simp
next
  case (Cons a ws)
  then show ?case by (cases i) auto
qed

lemma filter_pos: "i < length ws \<Longrightarrow> P (ws ! i) \<Longrightarrow> 0 < length (filter P ws)"
  by (metis filter_empty_conv length_greater_0_conv nth_mem)

lemma length_filter_update:
  "i < length ws \<Longrightarrow>
     length (filter P (ws[i := w])) =
     length (filter P ws) + (if P w then 1 else 0) - (if P (ws ! i) then 1 else 0)"
  using filter_update_add [of i ws P w] by (simp split: if_splits)

lemma mset_update_add:
  "i < length ws \<Longrightarrow> add_mset (ws ! i) (mset (ws[i := w])) = add_mset w (mset ws)"
  by (simp add: mset_update)

lemma mset_filter_update:
  assumes "i < length ws"
  shows "image_mset f (filter_mset P (mset (ws[i := w]))) =
     image_mset f (filter_mset P (mset ws)) + (if P w then {#f w#} else {#})
       - (if P (ws ! i) then {#f (ws ! i)#} else {#})"
proof -
  have "image_mset f (filter_mset P (add_mset (ws ! i) (mset (ws[i := w])))) =
      image_mset f (filter_mset P (add_mset w (mset ws)))"
    using mset_update_add [OF assms] by simp
  then have "image_mset f (filter_mset P (mset (ws[i := w])))
      + (if P (ws ! i) then {#f (ws ! i)#} else {#}) =
      image_mset f (filter_mset P (mset ws)) + (if P w then {#f w#} else {#})"
    by (simp split: if_splits)
  then show ?thesis
    by (metis add_diff_cancel_right')
qed

lemma int_length_pred: "xs \<noteq> [] \<Longrightarrow> int (length xs - Suc 0) = int (length xs) - 1"
  by (cases xs) auto

lemma list_all_update:
  "list_all P ws \<Longrightarrow> P w \<Longrightarrow> list_all P (ws[i := w])"
  by (metis list_all_iff set_update_subset_insert subsetD insertE)

lemma list_all_nth: "list_all P ws \<Longrightarrow> i < length ws \<Longrightarrow> P (ws ! i)"
  by (simp add: list_all_length)

lemma set_pc_simps [simp]:
  "workers (set_pc i p s) = (workers s)[i := (workers s ! i)\<lparr>w_pc := p\<rparr>]"
  "main (set_pc i p s) = main s" "sem (set_pc i p s) = sem s"
  "resultsMu (set_pc i p s) = resultsMu s" "wg (set_pc i p s) = wg s"
  "results (set_pc i p s) = results s"
  by (simp_all add: set_pc_def)

lemma map_image_update [simp]:
  "map w_image (ws[i := (ws ! i)\<lparr>w_pc := p\<rparr>]) = map w_image ws"
proof (cases "i < length ws")
  case True
  then show ?thesis by (simp add: map_update list_update_same_conv)
next
  case False
  then show ?thesis by (simp add: list_update_beyond)
qed

lemma invariant_init: "invariant cfg bench_init"
  by (simp add: invariant_def bench_init_def in_flight_def)

lemma invariant_main:
  assumes inv: "invariant cfg s" and step: "main_step cfg s = Some s'"
  shows "invariant cfg s'"
proof (cases "main s")
  case MMake
  with step have "concurrency cfg < 0 \<and> s' = s\<lparr>main := MPanic\<rparr> \<or> s' = s\<lparr>main := MDispatch 0\<rparr>"
    by (auto simp add: main_step_def split: if_splits)
  with inv MMake show ?thesis
    by (auto simp add: invariant_def in_flight_def)
next
  case (MDispatch k)
  show ?thesis
  proof (cases "k < length (args cfg)")
    case True
    with step MDispatch have "s' = s\<lparr>main := MDispatch (Suc k), wg := wg s + 1,
        workers := workers s @ [\<lparr>w_image = args cfg ! k, w_pc = WAcquire\<rparr>]\<rparr>"
      by (simp add: main_step_def)
    with inv MDispatch True show ?thesis
      by (simp add: invariant_def in_flight_def take_Suc_conv_app_nth carries_def)
  next
    case False
    with step MDispatch have "s' = s\<lparr>main := MWait\<rparr>"
      by (simp add: main_step_def)
    with inv MDispatch False show ?thesis
      by (simp add: invariant_def in_flight_def)
  qed
next
  case MWait
  with step have "s' = s\<lparr>main := MReturned\<rparr>" and "wg s = 0"
    by (simp_all add: main_step_def split: if_splits)
  with inv MWait show ?thesis
    by (simp add: invariant_def in_flight_def)
next
  case MReturned
  with step show ?thesis by (simp add: main_step_def)
next
  case MPanic
  with step show ?thesis by (simp add: main_step_def)
qed

lemma invariant_worker:
  assumes inv: "invariant cfg s" and step: "worker_step cfg i s = Some s'"
    and alive: "main s \<noteq> MReturned"
  shows "invariant cfg s'"
proof -
  from step have i: "i < length (workers s)"
    by (simp add: worker_step_def split: if_splits)
  from inv i have car: "carries (workers s ! i)"
    by (simp add: invariant_def list_all_nth)
  note upd = length_filter_update [OF i] mset_filter_update [OF i]
  show ?thesis
  proof (cases "w_pc (workers s ! i)")
    case WAcquire
    with step i have s': "s' = set_pc i WPull (s\<lparr>sem := sem s + 1\<rparr>)"
      and room: "int (sem s) < concurrency cfg"
      by (simp_all add: worker_step_def split: if_splits)
    from inv i alive WAcquire room show ?thesis unfolding s'
      by (auto simp add: invariant_def in_flight_def upd list_all_update carries_def)
  next
    case WPull
    with step i show ?thesis by (simp add: worker_step_def)
  next
    case (WLock r)
    with step i have s': "s' = set_pc i (WAppend r) (s\<lparr>resultsMu := True\<rparr>)"
      and free: "\<not> resultsMu s"
      by (simp_all add: worker_step_def split: if_splits)
    from inv i alive WLock free car show ?thesis unfolding s'
      by (auto simp add: invariant_def in_flight_def upd list_all_update carries_def)
  next
    case (WAppend r)
    with step i have s': "s' = set_pc i WUnlock (s\<lparr>results := results s @ [r]\<rparr>)"
      by (simp_all add: worker_step_def split: if_splits)
    from inv i alive WAppend car show ?thesis unfolding s'
      by (auto simp add: invariant_def in_flight_def upd list_all_update carries_def)
  next
    case WUnlock
    with step i have s': "s' = set_pc i WRelease (s\<lparr>resultsMu := False\<rparr>)"
      by (simp_all add: worker_step_def split: if_splits)
    from inv i alive WUnlock filter_pos [OF i, of "\<lambda>w. in_critical (w_pc w)"] show ?thesis unfolding s'
      by (auto simp add: invariant_def in_flight_def upd list_all_update carries_def split: if_splits)
  next
    case WRelease
    with step i have s': "s' = set_pc i WDone (s\<lparr>sem := sem s - 1\<rparr>)"
      by (simp_all add: worker_step_def split: if_splits)
    from inv i alive WRelease filter_pos [OF i, of "\<lambda>w. holds_slot (w_pc w)"] show ?thesis unfolding s'
      by (auto simp add: invariant_def in_flight_def upd list_all_update carries_def)
  next
    case WDone
    with step i have s': "s' = set_pc i WExit (s\<lparr>wg := wg s - 1\<rparr>)"
      by (simp_all add: worker_step_def split: if_splits)
    from inv i alive WDone filter_pos [OF i, of "\<lambda>w. w_pc w \<noteq> WExit"] show ?thesis unfolding s'
      by (auto simp add: invariant_def in_flight_def upd list_all_update carries_def int_length_pred)
  next
    case WExit
    with step i show ?thesis by (simp add: worker_step_def)
  qed
qed


lemma invariant_returns:
  assumes inv: "invariant cfg s" and step: "command_returns i env s = Some s'"
    and alive: "main s \<noteq> MReturned"
  shows "invariant cfg s'"
proof -
  from step have i: "i < length (workers s)" and pc: "w_pc (workers s ! i) = WPull"
    and s': "s' = set_pc i (WLock (pull_result (w_image (workers s ! i)) env)) s"
    by (simp_all add: command_returns_def split: if_splits)
  note upd = length_filter_update [OF i] mset_filter_update [OF i]
  from inv i alive pc show ?thesis unfolding s'
    by (auto simp add: invariant_def in_flight_def upd list_all_update carries_def pull_result_Image)
qed

lemma invariant_handoff:
  assumes inv: "invariant cfg s" and step: "handoff i j s = Some s'"
  shows "invariant cfg s'"
proof -
  from step have j: "j < length (workers s)" and pc: "w_pc (workers s ! j) = WRelease"
    and e: "sem s = 0"
    by (simp_all add: handoff_def split: if_splits)
  from inv e have "filter (\<lambda>w. holds_slot (w_pc w)) (workers s) = []"
    by (simp add: invariant_def in_flight_def)
  with filter_pos [OF j, of "\<lambda>w. holds_slot (w_pc w)"] pc show ?thesis
    by simp
qed

lemma invariant_exec:
  assumes "invariant cfg s" and "exec cfg a s = Some s'"
  shows "invariant cfg s'"
  using assms
  by (cases a)
     (auto simp add: exec_def split: if_splits
       intro: invariant_main invariant_worker invariant_returns invariant_handoff)

lemma invariant_run:
  "invariant cfg s \<Longrightarrow> run cfg sched s = Some s' \<Longrightarrow> invariant cfg s'"
  by (induction sched arbitrary: s) (auto split: option.splits intro: invariant_exec)



subsection \<open>The benchmark goroutines: every schedule is finite\<close>

lemma sum_list_update_add:
  "i < length ws \<Longrightarrow>
     sum_list (map f (ws[i := w])) + f (ws ! i) = sum_list (map f ws) + (f w :: nat)"
proof (induction ws arbitrary: i)
  case Nil
  then show ?case by simp
next
  case (Cons a ws)
  show ?case
  proof (cases i)
    case 0
    then show ?thesis by simp
  next
    case (Suc k)
    with Cons.prems have "k < length ws" by simp
    from Cons.IH [OF this] Suc show ?thesis by simp
  qed
qed

lemma rank_set_pc:
  assumes "i < length (workers s)" and "pc_rank p < pc_rank (w_pc (workers s ! i))"
  shows "rank cfg (set_pc i p s) < rank cfg s"
  using sum_list_update_add [OF assms(1), of "\<lambda>w. pc_rank (w_pc w)" "(workers s ! i)\<lparr>w_pc := p\<rparr>"]
    assms(2)
  by (simp add: rank_def)

lemma rank_main:
  assumes "main_step cfg s = Some s'"
  shows "rank cfg s' < rank cfg s"
  using assms
  by (cases "main s") (auto simp add: main_step_def rank_def split: if_splits)

lemma rank_field_simps [simp]:
  "rank cfg (s\<lparr>sem := x\<rparr>) = rank cfg s"
  "rank cfg (s\<lparr>resultsMu := b\<rparr>) = rank cfg s"
  "rank cfg (s\<lparr>results := rs\<rparr>) = rank cfg s"
  "rank cfg (s\<lparr>wg := n\<rparr>) = rank cfg s"
  by (simp_all add: rank_def)

lemma rank_worker:
  assumes "worker_step cfg i s = Some s'"
  shows "rank cfg s' < rank cfg s"
proof -
  from assms have i: "i < length (workers s)"
    by (simp add: worker_step_def split: if_splits)
  have *: "pc_rank p < pc_rank (w_pc (workers s ! i)) \<Longrightarrow> rank cfg (set_pc i p (f s)) < rank cfg s"
    if "workers (f s) = workers s" "rank cfg (f s) = rank cfg s" for p f
    using rank_set_pc [of i "f s" p cfg] i that by simp
  from assms i show ?thesis
    by (cases "w_pc (workers s ! i)")
       (auto simp add: worker_step_def split: if_splits intro!: *)
qed

lemma rank_returns:
  assumes "command_returns i env s = Some s'"
  shows "rank cfg s' < rank cfg s"
  using assms
  by (auto simp add: command_returns_def split: if_splits intro!: rank_set_pc)

lemma rank_handoff:
  assumes "handoff i j s = Some s'"
  shows "rank cfg s' < rank cfg s"
proof -
  from assms have i: "i < length (workers s)" and j: "j < length (workers s)"
    and pi: "w_pc (workers s ! i) = WAcquire" and pj: "w_pc (workers s ! j) = WRelease"
    and s': "s' = set_pc i WPull (set_pc j WDone s)"
    by (simp_all add: handoff_def split: if_splits)
  from pi pj have ne: "i \<noteq> j" by auto
  have "rank cfg (set_pc j WDone s) < rank cfg s"
    using j pj by (intro rank_set_pc) simp_all
  moreover have "rank cfg (set_pc i WPull (set_pc j WDone s)) < rank cfg (set_pc j WDone s)"
    using i pi ne by (intro rank_set_pc) simp_all
  ultimately show ?thesis unfolding s' by simp
qed

lemma rank_exec:
  assumes "exec cfg a s = Some s'"
  shows "rank cfg s' < rank cfg s"
  using assms
  by (cases a)
     (auto simp add: exec_def split: if_splits
       intro: rank_main rank_worker rank_returns rank_handoff)

lemma rank_run:
  "run cfg sched s = Some s' \<Longrightarrow> length sched + rank cfg s' \<le> rank cfg s"
proof (induction sched arbitrary: s)
  case Nil
  then show ?case by simp
next
  case (Cons a sched)
  then obtain t where t: "exec cfg a s = Some t" and r: "run cfg sched t = Some s'"
    by (auto split: option.splits)
  from Cons.IH [OF r] rank_exec [OF t] show ?case by simp
qed

lemma run_bounded:
  "run cfg sched bench_init = Some s \<Longrightarrow> length sched \<le> max_steps cfg"
  using rank_run [of cfg sched bench_init s]
  by (simp add: rank_def bench_init_def max_steps_def)


subsection \<open>The benchmark goroutines: completion\<close>

lemma invariant_reachable:
  "run cfg sched bench_init = Some s \<Longrightarrow> invariant cfg s"
  using invariant_run [OF invariant_init] .

lemma filter_all_conv: "filter P ws = [] \<longleftrightarrow> list_all (\<lambda>w. \<not> P w) ws"
  by (simp add: filter_empty_conv list_all_iff)

lemma returned_complete:
  assumes inv: "invariant cfg s" and ret: "main s = MReturned"
  shows "list_all (\<lambda>w. w_pc w = WExit) (workers s)
     \<and> length (workers s) = length (args cfg)
     \<and> mset (map Image (results s)) = mset (args cfg)
     \<and> length (results s) = length (args cfg)"
proof -
  from inv ret have "filter (\<lambda>w. w_pc w \<noteq> WExit) (workers s) = []"
    by (auto simp add: invariant_def)
  then have ex: "list_all (\<lambda>w. w_pc w = WExit) (workers s)"
    by (simp add: filter_all_conv)
  then have "filter (\<lambda>w. appended (w_pc w)) (workers s) = workers s"
    by (simp add: list_all_iff)
  then have "mset (map w_image (filter (\<lambda>w. appended (w_pc w)) (workers s))) =
      mset (map w_image (workers s))"
    by simp
  moreover from inv have "mset (map Image (results s)) =
      mset (map w_image (filter (\<lambda>w. appended (w_pc w)) (workers s)))"
    by (simp add: invariant_def)
  moreover from inv ret have w: "map w_image (workers s) = args cfg"
    by (simp add: invariant_def)
  ultimately have m: "mset (map Image (results s)) = mset (args cfg)"
    by (simp only:)
  from m have "length (map Image (results s)) = length (args cfg)"
    by (metis size_mset)
  with ex m w show ?thesis
    by (metis length_map)
qed


text \<open>
  With a positive capacity the run is never stuck before main returns: some goroutine
  can always move.
\<close>

lemma ex_worker:
  assumes "\<not> list_all P ws"
  obtains i where "i < length ws" and "\<not> P (ws ! i)"
  using assms by (auto simp add: list_all_length)

lemma progress:
  assumes inv: "invariant cfg s" and pos: "0 < concurrency cfg" and run: "main s \<noteq> MReturned"
  shows "\<exists>a s'. exec cfg a s = Some s'"
proof -
  from inv pos have np: "main s \<noteq> MPanic"
    by (auto simp add: invariant_def split: if_splits)
  let ?W = "workers s"
  show ?thesis
  proof (cases "main_step cfg s")
    case (Some s')
    with run np have "exec cfg Main s = Some s'" by (simp add: exec_def)
    then show ?thesis by blast
  next
    case None
    with run np have wait: "main s = MWait" and wg: "wg s \<noteq> 0"
      by (auto simp add: main_step_def split: main_pc.splits if_splits)
    from inv wg have "\<not> list_all (\<lambda>w. \<not> w_pc w \<noteq> WExit) ?W"
      unfolding filter_all_conv [symmetric] by (auto simp add: invariant_def)
    then obtain i where i: "i < length ?W" and live: "w_pc (?W ! i) \<noteq> WExit"
      by (auto elim: ex_worker)
    have en: "\<exists>a s'. exec cfg a s = Some s'" if "worker_step cfg j s = Some t" for j t
      using that run np by (intro exI [of _ "Worker j"]) (simp add: exec_def)
    have en': "\<exists>a s'. exec cfg a s = Some s'" if "command_returns j env s = Some t" for j env t
      using that run np by (intro exI [of _ "Returns j env"]) (simp add: exec_def)
    consider
      (at_pull) j where "j < length ?W" "w_pc (?W ! j) = WPull"
    | (at_crit) j where "j < length ?W" "in_critical (w_pc (?W ! j))"
    | (at_done) j where "j < length ?W" "w_pc (?W ! j) = WDone"
    | (at_rel) j where "j < length ?W" "w_pc (?W ! j) = WRelease"
    | (at_lock) j r where "j < length ?W" "w_pc (?W ! j) = WLock r"
        "list_all (\<lambda>w. \<not> in_critical (w_pc w)) ?W"
    | (at_acq) "list_all (\<lambda>w. \<not> holds_slot (w_pc w)) ?W" "w_pc (?W ! i) = WAcquire"
    proof -
      show ?thesis
      proof (cases "list_all (\<lambda>w. \<not> holds_slot (w_pc w)) ?W")
        case True
        with i have "\<not> holds_slot (w_pc (?W ! i))" by (simp add: list_all_length)
        with live have "w_pc (?W ! i) = WAcquire \<or> w_pc (?W ! i) = WDone"
          by (cases "w_pc (?W ! i)") auto
        with True i that show ?thesis by blast
      next
        case False
        then obtain j where j: "j < length ?W" and h: "holds_slot (w_pc (?W ! j))"
          by (auto elim: ex_worker)
        show ?thesis
        proof (cases "list_all (\<lambda>w. \<not> in_critical (w_pc w)) ?W")
          case True
          from h j True that show ?thesis
            by (cases "w_pc (?W ! j)") (auto simp add: list_all_length)
        next
          case False
          then obtain k where "k < length ?W" "in_critical (w_pc (?W ! k))"
            by (auto elim: ex_worker)
          with that show ?thesis by blast
        qed
      qed
    qed
    then show ?thesis
    proof cases
      case (at_pull j)
      then have "command_returns j env_killed s \<noteq> None"
        by (simp add: command_returns_def)
      then show ?thesis using en' by blast
    next
      case (at_crit j)
      then have "worker_step cfg j s \<noteq> None"
        by (cases "w_pc (?W ! j)") (simp_all add: worker_step_def)
      then show ?thesis using en by blast
    next
      case (at_done j)
      then have "worker_step cfg j s \<noteq> None"
        by (simp add: worker_step_def)
      then show ?thesis using en by blast
    next
      case (at_rel j)
      with filter_pos [of j ?W "\<lambda>w. holds_slot (w_pc w)"] inv have "0 < sem s"
        by (simp add: invariant_def in_flight_def)
      with at_rel have "worker_step cfg j s \<noteq> None"
        by (simp add: worker_step_def)
      then show ?thesis using en by blast
    next
      case (at_lock j r)
      from at_lock(3) have "filter (\<lambda>w. in_critical (w_pc w)) ?W = []"
        by (simp add: filter_all_conv)
      with inv have "\<not> resultsMu s"
        by (auto simp add: invariant_def split: if_splits)
      with at_lock have "worker_step cfg j s \<noteq> None"
        by (simp add: worker_step_def)
      then show ?thesis using en by blast
    next
      case at_acq
      from at_acq(1) have "filter (\<lambda>w. holds_slot (w_pc w)) ?W = []"
        by (simp add: filter_all_conv)
      with inv have "sem s = 0"
        by (simp add: invariant_def in_flight_def)
      with at_acq i pos have "worker_step cfg i s \<noteq> None"
        by (simp add: worker_step_def)
      then show ?thesis using en by blast
    qed
  qed
qed


lemmas bench_eval =
  exec_def main_step_def worker_step_def command_returns_def handoff_def set_pc_def
  bench_init_def

lemma length_filter_mono:
  "(\<And>x. P x \<Longrightarrow> Q x) \<Longrightarrow> length (filter P xs) \<le> length (filter Q xs)"
  by (induction xs) auto

lemma pulling_le_in_flight: "pulling s \<le> in_flight s"
  unfolding pulling_def in_flight_def by (rule length_filter_mono) simp

text \<open>
  C1. Whatever the schedule and whatever the pulls answer: once main is past
  \<^verbatim>\<open>wg.Wait()\<close> every worker has run to its end and \<^verbatim>\<open>results\<close> holds exactly one
  result per argument, for that argument's image (as multisets: an image given twice
  has two results). The run gets there: with a positive \<^verbatim>\<open>concurrency\<close> a state where
  main has not returned always has an enabled action, and no schedule is longer than
  \<open>max_steps\<close>.
\<close>

theorem benchmark_one_result_per_image:
  assumes "run cfg sched bench_init = Some s"
  shows "(if main s = MReturned
          then list_all (\<lambda>w. w_pc w = WExit) (workers s)
             \<and> length (workers s) = length (args cfg)
             \<and> mset (map Image (results s)) = mset (args cfg)
             \<and> length (results s) = length (args cfg)
          else 0 < concurrency cfg \<longrightarrow> (\<exists>a s'. exec cfg a s = Some s'))
         \<and> length sched \<le> max_steps cfg"
  using returned_complete [OF invariant_reachable [OF assms]]
    progress [OF invariant_reachable [OF assms]] run_bounded [OF assms]
  by simp

theorem benchmark_one_result_per_image_witness:
  "run cfg_two sched_two bench_init = Some final_two
   \<and> main final_two = MReturned
   \<and> list_all (\<lambda>w. w_pc w = WExit) (workers final_two)
   \<and> mset (map Image (results final_two)) = mset (args cfg_two)
   \<and> length (results final_two) = length (args cfg_two)
   \<and> length sched_two \<le> max_steps cfg_two
   \<and> run cfg_two [Main, Main] bench_init = Some one_started
   \<and> 0 < concurrency cfg_two
   \<and> (\<exists>a s'. exec cfg_two a one_started = Some s')"
proof -
  have r: "run cfg_two sched_two bench_init = Some final_two"
    by (simp add: cfg_two_def sched_two_def final_two_def bench_eval)
  have m: "main final_two = MReturned"
    by (simp add: final_two_def)
  have r': "run cfg_two [Main, Main] bench_init = Some one_started"
    by (simp add: cfg_two_def one_started_def bench_eval)
  have m': "main one_started \<noteq> MReturned"
    by (simp add: one_started_def)
  have c: "0 < concurrency cfg_two"
    by (simp add: cfg_two_def)
  from benchmark_one_result_per_image [OF r] benchmark_one_result_per_image [OF r'] r m r' m' c
  show ?thesis by simp
qed

text \<open>
  C2. With a positive \<^verbatim>\<open>concurrency\<close>, in every state a schedule can reach, the workers
  between their send and their receive on the gate, and so the pulls in flight, number
  at most \<^verbatim>\<open>concurrency\<close>.
\<close>

theorem benchmark_bounded_in_flight:
  assumes "0 < concurrency cfg" and "run cfg sched bench_init = Some s"
  shows "int (pulling s) \<le> concurrency cfg \<and> int (in_flight s) \<le> concurrency cfg"
proof -
  from invariant_reachable [OF assms(2)] assms(1)
  have "int (in_flight s) \<le> concurrency cfg"
    by (auto simp add: invariant_def)
  with pulling_le_in_flight [of s] show ?thesis by simp
qed

text \<open>
  With two slots and five images: two pulls are in flight and the third worker cannot
  pass the gate.
\<close>

theorem benchmark_bounded_in_flight_witness:
  "0 < concurrency cfg_five
   \<and> run cfg_five sched_five bench_init = Some two_pulling
   \<and> pulling two_pulling = 2
   \<and> int (pulling two_pulling) \<le> concurrency cfg_five
   \<and> int (in_flight two_pulling) \<le> concurrency cfg_five
   \<and> exec cfg_five (Worker 2) two_pulling = None"
proof -
  have c: "0 < concurrency cfg_five"
    by (simp add: cfg_five_def)
  have r: "run cfg_five sched_five bench_init = Some two_pulling"
    by (simp add: cfg_five_def sched_five_def two_pulling_def bench_eval)
  have p: "pulling two_pulling = 2"
    by (simp add: pulling_def two_pulling_def)
  have b: "exec cfg_five (Worker 2) two_pulling = None"
    by (simp add: cfg_five_def two_pulling_def bench_eval)
  from benchmark_bounded_in_flight [OF c r] c r p b show ?thesis by simp
qed

subsection \<open>The benchmark goroutines: a gate without room\<close>

lemma waiting_exec:
  assumes cap: "concurrency cfg \<le> 0"
    and w: "list_all (\<lambda>w. w_pc w = WAcquire) (workers s)"
    and step: "exec cfg a s = Some s'"
  shows "list_all (\<lambda>w. w_pc w = WAcquire) (workers s')"
proof (cases a)
  case Main
  with step w show ?thesis
    by (auto simp add: exec_def main_step_def split: if_splits main_pc.splits)
next
  case (Worker i)
  with step have i: "i < length (workers s)"
    by (simp add: exec_def worker_step_def split: if_splits)
  with w have "w_pc (workers s ! i) = WAcquire" by (simp add: list_all_length)
  with step Worker cap show ?thesis
    by (simp add: exec_def worker_step_def split: if_splits)
next
  case (Returns i env)
  with step have "i < length (workers s)" "w_pc (workers s ! i) = WPull"
    by (simp_all add: exec_def command_returns_def split: if_splits)
  with w show ?thesis by (simp add: list_all_length)
next
  case (Handoff i j)
  with step have "j < length (workers s)" "w_pc (workers s ! j) = WRelease"
    by (simp_all add: exec_def handoff_def split: if_splits)
  with w show ?thesis by (simp add: list_all_length)
qed

lemma waiting_run:
  "concurrency cfg \<le> 0 \<Longrightarrow> list_all (\<lambda>w. w_pc w = WAcquire) (workers s) \<Longrightarrow>
   run cfg sched s = Some s' \<Longrightarrow> list_all (\<lambda>w. w_pc w = WAcquire) (workers s')"
proof (induction sched arbitrary: s)
  case Nil
  then show ?case by simp
next
  case (Cons a sched)
  from Cons.prems(3) obtain t where t: "exec cfg a s = Some t" and r: "run cfg sched t = Some s'"
    by (auto split: option.splits)
  from Cons.IH [OF Cons.prems(1) waiting_exec [OF Cons.prems(1,2) t] r] show ?case .
qed

text \<open>
  With a capacity of zero or less and at least one image, main never gets past
  \<^verbatim>\<open>wg.Wait()\<close>; a negative capacity is the panic of \<^verbatim>\<open>make\<close>.
\<close>

lemma no_gate_never_returns:
  assumes cap: "concurrency cfg \<le> 0" and args: "args cfg \<noteq> []"
    and run: "run cfg sched bench_init = Some s"
  shows "main s \<noteq> MReturned"
proof
  assume ret: "main s = MReturned"
  from waiting_run [OF cap _ run] have w: "list_all (\<lambda>w. w_pc w = WAcquire) (workers s)"
    by (simp add: bench_init_def)
  from returned_complete [OF invariant_reachable [OF run] ret]
  have e: "list_all (\<lambda>w. w_pc w = WExit) (workers s)" and l: "length (workers s) = length (args cfg)"
    by simp_all
  from args l obtain x xs where "workers s = x # xs"
    by (cases "workers s") auto
  with w e show False by simp
qed

lemma negative_concurrency_panics:
  "concurrency cfg < 0 \<Longrightarrow> run cfg [Main] bench_init = Some (bench_init\<lparr>main := MPanic\<rparr>)"
  by (simp add: exec_def main_step_def bench_init_def)


text \<open>
  C5. The claim: a \<^verbatim>\<open>concurrency\<close> of zero or less is refused before any work is
  dispatched. The code tests nothing: with \<^verbatim>\<open>concurrency = 0\<close> and one image, main
  makes the gate, starts the worker and waits; the worker is blocked on its send, and no
  action is enabled any more.
\<close>

theorem benchmark_zero_concurrency_blocks:
  "run cfg_zero [Main, Main, Main] bench_init = Some blocked
   \<and> (\<forall>a. exec cfg_zero a blocked = None)"
proof
  show "run cfg_zero [Main, Main, Main] bench_init = Some blocked"
    by (simp add: cfg_zero_def blocked_def bench_eval)
  show "\<forall>a. exec cfg_zero a blocked = None"
  proof
    fix a
    show "exec cfg_zero a blocked = None"
      by (cases a) (auto simp add: cfg_zero_def blocked_def bench_eval)
  qed
qed

end
